theory Spec2Isabelle
  imports Main
begin

section \<open>JavaScript values used by the authorization code\<close>

text \<open>
  Environment variables (\<open>process.env\<close>) are a partial map from names to strings: a
  variable that is not set reads as \<open>undefined\<close> (\<open>None\<close>), a variable set to the empty
  string reads as \<open>''\<close>. JavaScript treats both as falsy.
\<close>

type_synonym env = "string \<rightharpoonup> string"

definition truthy :: "string option \<Rightarrow> bool" where
  "truthy v = (case v of None \<Rightarrow> False | Some s \<Rightarrow> s \<noteq> [])"

text \<open>\<open>a || d\<close> on an optional string and a string literal.\<close>

definition orElse :: "string option \<Rightarrow> string \<Rightarrow> string" where
  "orElse v d = (case v of None \<Rightarrow> d | Some s \<Rightarrow> if s = [] then d else s)"

text \<open>\<open>s.startsWith(p)\<close> and \<open>s.includes(sub)\<close>.\<close>

definition startsWith :: "string \<Rightarrow> string \<Rightarrow> bool" where
  "startsWith s p = (take (length p) s = p)"

fun includes_str :: "string \<Rightarrow> string \<Rightarrow> bool" where
  "includes_str [] sub = (sub = [])"
| "includes_str (c # cs) sub = (startsWith (c # cs) sub \<or> includes_str cs sub)"

text \<open>
  What a function can throw. \<open>redirect(path)\<close> of \<open>next/navigation\<close> does not return:
  it leaves the calling function with a redirect to \<open>path\<close>; \<open>throw new Error(msg)\<close>
  leaves it with an error object carrying \<open>msg\<close>.
\<close>

datatype thrown = NextRedirect string | JsError string

section \<open>Data access layer: \<open>src/lib/auth/dal.ts\<close>\<close>

subsection \<open>The session resolver \<open>verifySession\<close>\<close>

text \<open>The object returned by \<open>auth()\<close>: \<open>null\<close>, or a session whose \<open>user\<close> may be missing.\<close>

record session_user =
  user_id :: "string option"
  user_email :: "string option"
  user_role :: "string option"

record auth_session =
  user :: "session_user option"

record verified =
  isAuth :: bool
  userId :: string
  userEmail :: "string option"
  userRole :: "string option"

text \<open>The six operands of the \<open>&&\<close> chain that defines \<open>isDevelopmentBypass\<close>, in order.\<close>

definition bypassGuards :: "env \<Rightarrow> bool list" where
  "bypassGuards e =
     [ e ''NODE_ENV'' = Some ''development'',
       e ''DEV_DAL_BYPASS'' = Some ''true'',
       (case e ''DATABASE_URL'' of None \<Rightarrow> False | Some u \<Rightarrow> includes_str u ''localhost''),
       \<not> truthy (e ''VERCEL_ENV''),
       \<not> truthy (e ''RAILWAY_ENVIRONMENT''),
       \<not> truthy (e ''HEROKU_APP_NAME'') ]"

definition isDevelopmentBypass :: "env \<Rightarrow> bool" where
  "isDevelopmentBypass e =
     (e ''NODE_ENV'' = Some ''development'' \<and>
      e ''DEV_DAL_BYPASS'' = Some ''true'' \<and>
      (case e ''DATABASE_URL'' of None \<Rightarrow> False | Some u \<Rightarrow> includes_str u ''localhost'') \<and>
      \<not> truthy (e ''VERCEL_ENV'') \<and>
      \<not> truthy (e ''RAILWAY_ENVIRONMENT'') \<and>
      \<not> truthy (e ''HEROKU_APP_NAME''))"

text \<open>
  The normal path redirects when \<open>!session?.user?.id\<close>: no session, no user, or an id
  that is \<open>undefined\<close> or empty.
\<close>

definition verifySession :: "env \<Rightarrow> auth_session option \<Rightarrow> thrown + verified" where
  "verifySession e session =
     (if isDevelopmentBypass e then
        Inr \<lparr> isAuth = True,
              userId = orElse (e ''DEV_USER_ID'') ''dev-dal-user-id-default'',
              userEmail = Some (orElse (e ''DEV_USER_EMAIL'') ''dev-dal-default@example.com''),
              userRole = Some (orElse (e ''DEV_USER_ROLE'') ''ADMIN'') \<rparr>
      else
        (case session of
           None \<Rightarrow> Inl (NextRedirect ''/es/signin'')
         | Some ses \<Rightarrow>
             (case user ses of
                None \<Rightarrow> Inl (NextRedirect ''/es/signin'')
              | Some u \<Rightarrow>
                  (case user_id u of
                     None \<Rightarrow> Inl (NextRedirect ''/es/signin'')
                   | Some i \<Rightarrow>
                       if i = [] then Inl (NextRedirect ''/es/signin'')
                       else Inr \<lparr> isAuth = True, userId = i,
                                  userEmail = user_email u, userRole = user_role u \<rparr>))))"

subsection \<open>The role gate \<open>requireRole\<close>\<close>

definition roleHierarchy :: "(string \<times> int) list" where
  "roleHierarchy =
     [ (''BASIC'', 0), (''PLUS'', 1), (''PREMIUM'', 2),
       (''PREMIUM_PLUS'', 3), (''ADMIN'', 4), (''SUPER_ADMIN'', 5) ]"

text \<open>
  \<open>Object.keys(roleHierarchy).includes(userRole)\<close>, then
  \<open>roleHierarchy[userRole] < roleHierarchy[requiredRole]\<close>. A label missing from the
  table reads as \<open>undefined\<close>, and a comparison with \<open>undefined\<close> is false.
\<close>

definition requireRoleIn :: "(string \<times> int) list \<Rightarrow> string \<Rightarrow> verified \<Rightarrow> thrown + bool" where
  "requireRoleIn table requiredRole v =
     (case userRole v of
        None \<Rightarrow> Inl (NextRedirect ''/unauthorized'')
      | Some r \<Rightarrow>
          if r \<notin> set (map fst table) then Inl (NextRedirect ''/unauthorized'')
          else (case (map_of table r, map_of table requiredRole) of
                  (Some a, Some b) \<Rightarrow>
                     if a < b then Inl (NextRedirect ''/unauthorized'') else Inr True
                | _ \<Rightarrow> Inr True))"

definition requireRole :: "env \<Rightarrow> auth_session option \<Rightarrow> string \<Rightarrow> thrown + bool" where
  "requireRole e session requiredRole =
     (case verifySession e session of
        Inl t \<Rightarrow> Inl t
      | Inr v \<Rightarrow> requireRoleIn roleHierarchy requiredRole v)"

text \<open>The template copy of the file (\<open>template-frontend/src/lib/dal.ts\<close>) has three tiers.\<close>

definition roleHierarchy_template :: "(string \<times> int) list" where
  "roleHierarchy_template = [ (''USER'', 0), (''ADMIN'', 1), (''SUPER_ADMIN'', 2) ]"

definition requireRole_template :: "env \<Rightarrow> auth_session option \<Rightarrow> string \<Rightarrow> thrown + bool" where
  "requireRole_template e session requiredRole =
     (case verifySession e session of
        Inl t \<Rightarrow> Inl t
      | Inr v \<Rightarrow> requireRoleIn roleHierarchy_template requiredRole v)"

text \<open>The six role labels of the type of \<open>requiredRole\<close>, and the rank the table gives a label.\<close>

definition roles :: "string list" where
  "roles = [''BASIC'', ''PLUS'', ''PREMIUM'', ''PREMIUM_PLUS'', ''ADMIN'', ''SUPER_ADMIN'']"

definition rank :: "string \<Rightarrow> int option" where
  "rank r = map_of roleHierarchy r"

subsection \<open>The data-fetch template \<open>getSecureData\<close>\<close>

text \<open>
  The caller's \<open>dataFetcher\<close> is any computation on the subject id: it may read and change
  the world \<open>'w\<close> behind it (storage, counters, a record of its own calls) and it either
  returns data or throws. \<open>getSecureData\<close> returns its outcome, the world it leaves, and
  what \<open>console.error\<close> was given.
\<close>

type_synonym ('a, 'w) fetcher = "string \<Rightarrow> 'w \<Rightarrow> (thrown + 'a) \<times> 'w"

definition getSecureData ::
  "env \<Rightarrow> auth_session option \<Rightarrow> ('a, 'w) fetcher \<Rightarrow> 'w \<Rightarrow> (thrown + 'a) \<times> 'w \<times> thrown list" where
  "getSecureData e session dataFetcher w =
     (case verifySession e session of
        Inl t \<Rightarrow> (Inl t, w, [])
      | Inr v \<Rightarrow>
          (case dataFetcher (userId v) w of
             (Inr d, w') \<Rightarrow> (Inr d, w', [])
           | (Inl err, w') \<Rightarrow> (Inl (JsError ''Data access denied''), w', [err])))"

text \<open>A fetcher that records the subject id of every call in the world and then answers \<open>r\<close>.\<close>

definition recordingFetcher :: "(thrown + 'a) \<Rightarrow> ('a, string list) fetcher" where
  "recordingFetcher r uid calls = (r, calls @ [uid])"

section \<open>Rate limiting: \<open>src/lib/rate-limiting.ts\<close>\<close>

record rl_entry =
  count :: int
  resetTime :: int

type_synonym rl_store = "string \<rightharpoonup> rl_entry"

record rl_result =
  allowed :: bool
  remaining :: int
  result_resetTime :: int

definition RATE_LIMIT_WINDOW :: int where
  "RATE_LIMIT_WINDOW = 15 * 60 * 1000"

definition MAX_ATTEMPTS :: int where
  "MAX_ATTEMPTS = 5"

definition storeKey :: "string \<Rightarrow> string" where
  "storeKey identifier = ''auth:'' @ identifier"

text \<open>
  \<open>checkRateLimit\<close> reads the clock once (\<open>now = Date.now()\<close>, in milliseconds) and works
  on the module's store: it drops an expired entry, creates a missing one, increments the
  count and answers from the incremented entry.
\<close>

definition checkRateLimit :: "int \<Rightarrow> string \<Rightarrow> rl_store \<Rightarrow> rl_result \<times> rl_store" where
  "checkRateLimit now identifier store =
     (let key = storeKey identifier;
          cleaned = (case store key of
                       None \<Rightarrow> store
                     | Some e \<Rightarrow> if resetTime e < now then store(key := None) else store);
          entry = (case cleaned key of
                     None \<Rightarrow> \<lparr> count = 0, resetTime = now + RATE_LIMIT_WINDOW \<rparr>
                   | Some e \<Rightarrow> e);
          entry' = entry \<lparr> count := count entry + 1 \<rparr>
      in (\<lparr> allowed = (count entry' \<le> MAX_ATTEMPTS),
             remaining = max 0 (MAX_ATTEMPTS - count entry'),
             result_resetTime = resetTime entry' \<rparr>,
          cleaned(key \<mapsto> entry')))"

definition resetRateLimit :: "string \<Rightarrow> rl_store \<Rightarrow> rl_store" where
  "resetRateLimit identifier store = store(storeKey identifier := None)"

text \<open>Successive calls for one identifier, at the given clock readings, in order.\<close>

fun checkRateLimits :: "int list \<Rightarrow> string \<Rightarrow> rl_store \<Rightarrow> rl_result list \<times> rl_store" where
  "checkRateLimits [] identifier store = ([], store)"
| "checkRateLimits (now # ts) identifier store =
     (case checkRateLimit now identifier store of
        (r, store') \<Rightarrow>
          (case checkRateLimits ts identifier store' of
             (rs, store'') \<Rightarrow> (r # rs, store'')))"

text \<open>
  A run of calls for any identifiers, each with its clock reading; every result is kept
  with the identifier it was for.
\<close>

fun runCalls :: "(int \<times> string) list \<Rightarrow> rl_store \<Rightarrow> (string \<times> rl_result) list \<times> rl_store" where
  "runCalls [] store = ([], store)"
| "runCalls ((now, identifier) # cs) store =
     (case checkRateLimit now identifier store of
        (r, store') \<Rightarrow>
          (case runCalls cs store' of
             (rs, store'') \<Rightarrow> ((identifier, r) # rs, store'')))"

definition resultsFor :: "string \<Rightarrow> (string \<times> rl_result) list \<Rightarrow> rl_result list" where
  "resultsFor identifier rs = map snd (filter (\<lambda>p. fst p = identifier) rs)"

definition timesFor :: "string \<Rightarrow> (int \<times> string) list \<Rightarrow> int list" where
  "timesFor identifier cs = map fst (filter (\<lambda>c. snd c = identifier) cs)"

section \<open>Credential verifier: \<open>authorize\<close> of \<open>auth.config.ts\<close>\<close>

record db_user =
  db_id :: string
  db_email :: string
  db_name :: "string option"
  db_password :: "string option"
  db_role :: string

record authorized_user =
  au_id :: string
  au_email :: string
  au_name :: "string option"
  au_role :: string

datatype log_entry = Log string | LogError string thrown

text \<open>\<open>if (process.env.NODE_ENV === 'development') console.log(msg)\<close>.\<close>

definition devLog :: "bool \<Rightarrow> string \<Rightarrow> log_entry list" where
  "devLog development msg = (if development then [Log msg] else [])"

text \<open>
  The libraries \<open>authorize\<close> calls are parameters: \<open>safeParse\<close> is the schema check
  (\<open>Some (email, password)\<close> on success), \<open>findUnique\<close> the storage lookup by email and
  \<open>compare\<close> the hash comparison; the last two may throw. The result is the returned
  value (\<open>None\<close> for \<open>null\<close>), the rate-limit store afterwards and the server's log.
\<close>

definition authorize ::
  "bool \<Rightarrow> ('c \<Rightarrow> (string \<times> string) option) \<Rightarrow> (string \<Rightarrow> thrown + db_user option) \<Rightarrow>
   (string \<Rightarrow> string \<Rightarrow> thrown + bool) \<Rightarrow> int \<Rightarrow> 'c \<Rightarrow> rl_store \<Rightarrow>
   authorized_user option \<times> rl_store \<times> log_entry list" where
  "authorize development safeParse findUnique compare now credentials store =
     (case safeParse credentials of
        None \<Rightarrow> (None, store, devLog development ''Invalid credentials format'')
      | Some (email, password) \<Rightarrow>
          (case checkRateLimit now email store of
             (rateLimitResult, store') \<Rightarrow>
               if \<not> allowed rateLimitResult then
                 (None, store', devLog development (''Rate limit exceeded for '' @ email))
               else
                 (case findUnique email of
                    Inl err \<Rightarrow> (None, store', [LogError ''Error in authorize:'' err])
                  | Inr None \<Rightarrow>
                      (None, store', devLog development ''User not found or no password set'')
                  | Inr (Some u) \<Rightarrow>
                      (case db_password u of
                         None \<Rightarrow>
                           (None, store', devLog development ''User not found or no password set'')
                       | Some h \<Rightarrow>
                           if h = [] then
                             (None, store', devLog development ''User not found or no password set'')
                           else
                             (case compare password h of
                                Inl err \<Rightarrow> (None, store', [LogError ''Error in authorize:'' err])
                              | Inr passwordsMatch \<Rightarrow>
                                  if \<not> passwordsMatch then
                                    (None, store', devLog development ''Password does not match'')
                                  else
                                    (Some \<lparr> au_id = db_id u, au_email = db_email u,
                                             au_name = db_name u, au_role = db_role u \<rparr>,
                                     store', []))))))"

section \<open>Edge request filter: \<open>middleware.ts\<close>\<close>

subsection \<open>Headers, URLs, requests and responses\<close>

text \<open>
  A \<open>Headers\<close> object keeps one value per name and compares names without regard to
  case: every operation lower-cases the name it is given.
\<close>

type_synonym headers = "string \<rightharpoonup> string"

definition lowerChar :: "char \<Rightarrow> char" where
  "lowerChar c =
     (case map_of (zip ''ABCDEFGHIJKLMNOPQRSTUVWXYZ'' ''abcdefghijklmnopqrstuvwxyz'') c of
        None \<Rightarrow> c
      | Some d \<Rightarrow> d)"

definition lowercase :: "string \<Rightarrow> string" where
  "lowercase s = map lowerChar s"

definition hget :: "headers \<Rightarrow> string \<Rightarrow> string option" where
  "hget h name = h (lowercase name)"

definition hset :: "string \<Rightarrow> string \<Rightarrow> headers \<Rightarrow> headers" where
  "hset name v h = h(lowercase name \<mapsto> v)"

definition hdelete :: "string \<Rightarrow> headers \<Rightarrow> headers" where
  "hdelete name h = h(lowercase name := None)"

text \<open>
  A URL built with \<open>new URL(path, request.url)\<close>: the origin is the request's; the path
  and the search parameters are what the handler writes.
\<close>

record url =
  url_pathname :: string
  searchParams :: "(string \<times> string) list"

text \<open>
  The request as the handler reads it: \<open>request.nextUrl.pathname\<close>, \<open>request.auth\<close>
  (the session, or \<open>null\<close>), \<open>request.headers\<close> and \<open>request.method\<close>.
\<close>

record request =
  pathname :: string
  auth :: "auth_session option"
  req_headers :: headers
  req_method :: string

text \<open>
  A response is a redirect (\<open>NextResponse.redirect(url)\<close>, \<open>Response.redirect(url)\<close>) or
  \<open>NextResponse.next(init)\<close>. The redirect is tagged with the \<open>return\<close> statement that
  issued it: one of the three of the handler, or the one of the \<open>authorized\<close> callback. The
  argument of \<open>NextResponse_next\<close> is the \<open>request.headers\<close> override of \<open>init\<close>, \<open>None\<close> when
  \<open>next()\<close> is called without one. \<open>headers\<close> are the response headers the code of the filter has
  written.
\<close>

datatype redirect_step = I18nRedirect | LoginRedirect | DashboardRedirect | AuthorizedRedirect

datatype action = NextResponse_redirect redirect_step url | NextResponse_next "headers option"

record response =
  action :: action
  headers :: headers

definition redirectResponse :: "redirect_step \<Rightarrow> url \<Rightarrow> response" where
  "redirectResponse step u = \<lparr> action = NextResponse_redirect step u, headers = Map.empty \<rparr>"

text \<open>
  The request the framework hands on to the route after the filter: none after a redirect;
  after \<open>next()\<close> the request the filter received, with its headers replaced only when
  \<open>next\<close> was given an override.
\<close>

definition forwardedRequest :: "request \<Rightarrow> response \<Rightarrow> request option" where
  "forwardedRequest request resp =
     (case action resp of
        NextResponse_redirect step u \<Rightarrow> None
      | NextResponse_next None \<Rightarrow> Some request
      | NextResponse_next (Some h) \<Rightarrow> Some (request \<lparr> req_headers := h \<rparr>))"

subsection \<open>Path helpers\<close>

definition locales :: "string list" where
  "locales = [''es'', ''en'']"

definition defaultLocale :: string where
  "defaultLocale = ''es''"

definition getLocale :: "request \<Rightarrow> string" where
  "getLocale request = defaultLocale"

text \<open>\<open>s.split('/')\<close> and \<open>segments.join('/')\<close>.\<close>

fun split_slash :: "string \<Rightarrow> string list" where
  "split_slash [] = [[]]"
| "split_slash (c # cs) =
     (if c = CHR ''/'' then [] # split_slash cs
      else (case split_slash cs of
              [] \<Rightarrow> [[c]]
            | w # ws \<Rightarrow> (c # w) # ws))"

fun join_slash :: "string list \<Rightarrow> string" where
  "join_slash [] = []"
| "join_slash [w] = w"
| "join_slash (w # ws) = w @ ''/'' @ join_slash ws"

text \<open>\<open>pathname.split('/')[1]\<close>, \<open>undefined\<close> when there is no second segment.\<close>

definition segment1 :: "string \<Rightarrow> string option" where
  "segment1 p = (case split_slash p of a # b # rest \<Rightarrow> Some b | _ \<Rightarrow> None)"

definition getPathnameWithoutLocale :: "string \<Rightarrow> string" where
  "getPathnameWithoutLocale p =
     (case segment1 p of
        None \<Rightarrow> p
      | Some seg \<Rightarrow>
          if seg \<in> set locales then ''/'' @ join_slash (drop 2 (split_slash p)) else p)"

definition pathnameHasLocale :: "string \<Rightarrow> bool" where
  "pathnameHasLocale p =
     list_ex (\<lambda>locale. startsWith p (''/'' @ locale @ ''/'') \<or> p = ''/'' @ locale) locales"

text \<open>
  \<open>pathnameHasLocale ? pathname.split('/')[1] : getLocale(request)\<close>, as it is spliced
  into a template literal.
\<close>

definition currentLocale :: "request \<Rightarrow> string" where
  "currentLocale request =
     (if pathnameHasLocale (pathname request)
      then (case segment1 (pathname request) of None \<Rightarrow> ''undefined'' | Some seg \<Rightarrow> seg)
      else getLocale request)"

subsection \<open>The wrapper \<open>auth\<close> of next-auth\<close>

text \<open>
  Both files export \<open>auth(handler)\<close>. The wrapper resolves the session and first runs the
  \<open>authorized\<close> callback of the configuration on the request. When the callback returns a
  response, the wrapper answers with it and the handler is not called; when it returns a
  boolean, the wrapper calls the handler, with the session as \<open>request.auth\<close>, and answers
  with what the handler returns. The session cookies the wrapper adds are left out.
\<close>

datatype authorized_result = Authorized bool | AuthorizedResponse response

definition auth_wrapper ::
  "(request \<Rightarrow> authorized_result) \<Rightarrow> (request \<Rightarrow> response) \<Rightarrow> request \<Rightarrow> response" where
  "auth_wrapper authorizedCallback userMiddleware request =
     (case authorizedCallback request of
        AuthorizedResponse resp \<Rightarrow> resp
      | Authorized b \<Rightarrow> userMiddleware request)"

subsection \<open>The filter of \<open>sifrex-frontend\<close> (\<open>/middleware.ts\<close>, \<open>auth.config.ts\<close>)\<close>

definition publicRoutes :: "string list" where
  "publicRoutes =
     [''/auth/signin'', ''/auth/signup'', ''/auth/forgot-password'', ''/auth/reset-password'']"

text \<open>
  Step 1 of the handler: the copy of the request whose headers have the two names deleted.
\<close>

definition cleanRequest :: "request \<Rightarrow> request" where
  "cleanRequest request =
     request \<lparr> req_headers :=
       hdelete ''x-forwarded-middleware''
         (hdelete ''x-middleware-subrequest'' (req_headers request)) \<rparr>"

definition securityHeaders :: "headers \<Rightarrow> headers" where
  "securityHeaders h =
     hset ''Strict-Transport-Security'' ''max-age=31536000; includeSubDomains; preload''
       (hset ''X-XSS-Protection'' ''1; mode=block''
         (hset ''Referrer-Policy'' ''strict-origin-when-cross-origin''
           (hset ''X-Content-Type-Options'' ''nosniff''
             (hset ''X-Frame-Options'' ''DENY'' h))))"

text \<open>The callback the file hands to \<open>auth\<close>.\<close>

definition handler :: "request \<Rightarrow> response" where
  "handler request =
     (let isAuthenticated = (auth request \<noteq> None);
          clean = cleanRequest request
      in
        if \<not> pathnameHasLocale (pathname request) then
          redirectResponse I18nRedirect
            \<lparr> url_pathname = ''/'' @ currentLocale request @ pathname request,
              searchParams = [] \<rparr>
        else
          let pathnameWithoutLocale = getPathnameWithoutLocale (pathname request);
              isPublicRoute = list_ex (\<lambda>route. startsWith pathnameWithoutLocale route) publicRoutes
          in
            if \<not> isPublicRoute \<and> \<not> isAuthenticated then
              redirectResponse LoginRedirect
                \<lparr> url_pathname = ''/'' @ currentLocale request @ ''/auth/signin'',
                  searchParams = [(''callbackUrl'', pathname request)] \<rparr>
            else if isPublicRoute \<and> isAuthenticated then
              redirectResponse DashboardRedirect
                \<lparr> url_pathname = ''/'' @ currentLocale request @ ''/dashboard'',
                  searchParams = [] \<rparr>
            else
              \<lparr> action = NextResponse_next None,
                headers = hdelete ''x-forwarded-middleware''
                            (hdelete ''x-middleware-subrequest''
                              (securityHeaders Map.empty)) \<rparr>)"

text \<open>
  \<open>callbacks.authorized\<close> of \<open>auth.config.ts\<close>: \<open>isLoggedIn\<close> is \<open>!!auth?.user\<close>, the locale
  \<open>nextUrl.pathname.split('/')[1] || 'es'\<close>.
\<close>

definition isLoggedIn :: "request \<Rightarrow> bool" where
  "isLoggedIn request = (case auth request of None \<Rightarrow> False | Some ses \<Rightarrow> user ses \<noteq> None)"

definition authorized :: "request \<Rightarrow> authorized_result" where
  "authorized request =
     (let isOnDashboard = includes_str (pathname request) ''/dashboard'';
          locale = orElse (segment1 (pathname request)) ''es''
      in
        if isOnDashboard then
          (if isLoggedIn request then Authorized True else Authorized False)
        else if isLoggedIn request then
          AuthorizedResponse
            (redirectResponse AuthorizedRedirect
               \<lparr> url_pathname = ''/'' @ locale @ ''/dashboard'', searchParams = [] \<rparr>)
        else Authorized True)"

text \<open>The default export: \<open>auth(handler)\<close>, with the configuration of \<open>auth.ts\<close>.\<close>

definition middleware :: "request \<Rightarrow> response" where
  "middleware request = auth_wrapper authorized handler request"

subsection \<open>The filter of \<open>template-frontend\<close> (\<open>src/middleware.ts\<close>)\<close>

definition protectedRoutes :: "string list" where
  "protectedRoutes = [''/dashboard'', ''/profile'', ''/settings'']"

definition authRoutes :: "string list" where
  "authRoutes = [''/auth/signin'', ''/auth/signup'', ''/auth/forgot-password'']"

text \<open>The callback the file hands to \<open>auth\<close>.\<close>

definition handler_template :: "request \<Rightarrow> response" where
  "handler_template request =
     (let isAuthenticated = (auth request \<noteq> None)
      in
        if \<not> pathnameHasLocale (pathname request) then
          redirectResponse I18nRedirect
            \<lparr> url_pathname = ''/'' @ currentLocale request @ pathname request,
              searchParams = [] \<rparr>
        else
          let pathnameWithoutLocale = getPathnameWithoutLocale (pathname request);
              isProtectedRoute =
                list_ex (\<lambda>route. startsWith pathnameWithoutLocale route) protectedRoutes;
              isAuthRoute = list_ex (\<lambda>route. startsWith pathnameWithoutLocale route) authRoutes
          in
            if isProtectedRoute \<and> \<not> isAuthenticated then
              redirectResponse LoginRedirect
                \<lparr> url_pathname = ''/'' @ currentLocale request @ ''/auth/signin'',
                  searchParams = [(''callbackUrl'', pathname request)] \<rparr>
            else if isAuthRoute \<and> isAuthenticated then
              redirectResponse DashboardRedirect
                \<lparr> url_pathname = ''/'' @ currentLocale request @ ''/dashboard'',
                  searchParams = [] \<rparr>
            else
              \<lparr> action = NextResponse_next None, headers = Map.empty \<rparr>)"

text \<open>
  The default export: \<open>auth(handler)\<close>. The configuration this \<open>auth\<close> is built from
  (\<open>template-frontend/auth.ts\<close>) is not among the sources, so its \<open>authorized\<close> callback is
  a parameter; a configuration without the callback is \<open>\<lambda>request. Authorized True\<close>.
\<close>

definition middleware_template :: "(request \<Rightarrow> authorized_result) \<Rightarrow> request \<Rightarrow> response" where
  "middleware_template authorizedCallback request =
     auth_wrapper authorizedCallback handler_template request"

section \<open>Concrete inputs\<close>

text \<open>A session for subject \<open>i\<close> with role \<open>r\<close>, as \<open>auth()\<close> returns it.\<close>

definition session_of :: "string \<Rightarrow> string \<Rightarrow> auth_session option" where
  "session_of i r =
     Some \<lparr> user = Some \<lparr> user_id = Some i, user_email = None, user_role = Some r \<rparr> \<rparr>"

text \<open>A development environment in which every operand of the bypass guard holds.\<close>

definition devEnv :: env where
  "devEnv = [''NODE_ENV'' \<mapsto> ''development'', ''DEV_DAL_BYPASS'' \<mapsto> ''true'',
             ''DATABASE_URL'' \<mapsto> ''postgresql://localhost:5432/app'']"

text \<open>The same environment with \<open>VERCEL_ENV\<close> set, to the empty string.\<close>

definition emptyMarkerEnv :: env where
  "emptyMarkerEnv = devEnv(''VERCEL_ENV'' \<mapsto> [])"

text \<open>Six environments, the \<open>i\<close>-th differing from \<open>devEnv\<close> in the variable of operand \<open>i\<close>.\<close>

definition flippedEnvs :: "env list" where
  "flippedEnvs =
     [ devEnv(''NODE_ENV'' \<mapsto> ''production''),
       devEnv(''DEV_DAL_BYPASS'' \<mapsto> ''false''),
       devEnv(''DATABASE_URL'' \<mapsto> ''postgresql://db.example.com:5432/app''),
       devEnv(''VERCEL_ENV'' \<mapsto> ''production''),
       devEnv(''RAILWAY_ENVIRONMENT'' \<mapsto> ''production''),
       devEnv(''HEROKU_APP_NAME'' \<mapsto> ''app'') ]"

text \<open>
  Eight sign-in attempts within six minutes, seven of them for \<open>user@example.com\<close>: the
  first at clock reading 1000, and the later ones.
\<close>

definition laterCalls :: "(int \<times> string) list" where
  "laterCalls =
     [ (61000, ''user@example.com''),
       (62000, ''other@example.com''), (121000, ''user@example.com''),
       (181000, ''user@example.com''), (241000, ''user@example.com''),
       (301000, ''user@example.com''), (361000, ''user@example.com'') ]"

text \<open>A store whose entry for \<open>user@example.com\<close> expired at clock reading 500.\<close>

definition staleStore :: rl_store where
  "staleStore = [storeKey ''user@example.com'' \<mapsto> \<lparr> count = 9, resetTime = 500 \<rparr>]"

text \<open>A stored credential account.\<close>

definition storedUser :: db_user where
  "storedUser = \<lparr> db_id = ''u1'', db_email = ''user@example.com'', db_name = Some ''User'',
                  db_password = Some ''$2a$10$abcdefghijklmnopqrstuv'', db_role = ''BASIC'' \<rparr>"

text \<open>
  A signed-in request for \<open>/es/dashboard\<close> that carries the header
  \<open>x-middleware-subrequest\<close>, and an anonymous request for \<open>/dashboard\<close>.
\<close>

definition forgedRequest :: request where
  "forgedRequest =
     \<lparr> pathname = ''/es/dashboard'', auth = session_of ''u1'' ''BASIC'',
       req_headers = [''x-middleware-subrequest'' \<mapsto> ''middleware:middleware:middleware''],
       req_method = ''GET'' \<rparr>"

definition plainRequest :: request where
  "plainRequest =
     \<lparr> pathname = ''/dashboard'', auth = None, req_headers = Map.empty, req_method = ''GET'' \<rparr>"

text \<open>A signed-in request for \<open>/settings\<close>.\<close>

definition signedInSettings :: request where
  "signedInSettings =
     \<lparr> pathname = ''/settings'', auth = session_of ''u1'' ''BASIC'',
       req_headers = Map.empty, req_method = ''GET'' \<rparr>"

section \<open>The role gate\<close>

lemma rank_roles: "a \<in> set roles \<Longrightarrow> \<exists>ra. rank a = Some ra \<and> 0 \<le> ra \<and> ra \<le> 5"
  by (auto simp: roles_def rank_def roleHierarchy_def)

lemma keys_roles: "set (map fst roleHierarchy) = set roles"
  by (simp add: roles_def roleHierarchy_def)

lemma requireRoleIn_known:
  assumes "userRole v = Some a" and "rank a = Some ra" and "rank b = Some rb"
  shows "requireRoleIn roleHierarchy b v =
           (if ra < rb then Inl (NextRedirect ''/unauthorized'') else Inr True)"
proof -
  from assms(2) have "a \<in> set (map fst roleHierarchy)"
    unfolding rank_def by (metis map_of_eq_None_iff option.distinct(1) set_map)
  with assms show ?thesis
    by (simp add: requireRoleIn_def rank_def)
qed

lemma requireRoleIn_unknown:
  assumes "userRole v = None \<or> (\<exists>a. userRole v = Some a \<and> a \<notin> set roles)"
  shows "requireRoleIn roleHierarchy b v = Inl (NextRedirect ''/unauthorized'')"
proof (cases "userRole v")
  case None
  then show ?thesis by (simp add: requireRoleIn_def)
next
  case (Some a)
  with assms have "a \<notin> set (map fst roleHierarchy)"
    unfolding keys_roles by simp
  with Some show ?thesis by (simp add: requireRoleIn_def del: set_map)
qed

lemma verifySession_session_of:
  "verifySession Map.empty (session_of ''u1'' r) =
     Inr \<lparr> isAuth = True, userId = ''u1'', userEmail = None, userRole = Some r \<rparr>"
  by (simp add: verifySession_def isDevelopmentBypass_def session_of_def)

text \<open>
  Claim C1. Let the session resolve, and let the required role \<open>b\<close> be one of the six
  labels. If the session's role \<open>a\<close> is one of the six labels too, both have a rank in the
  table, \<open>requireRole b\<close> returns \<open>true\<close> exactly when \<open>rank a \<ge> rank b\<close>, and when
  \<open>rank a < rank b\<close> it does not return but redirects to \<open>/unauthorized\<close>. If the session's
  role is missing or is not one of the six labels, it redirects to \<open>/unauthorized\<close>.
\<close>

theorem requireRole_rank:
  assumes "verifySession e s = Inr v" and "b \<in> set roles"
  shows "(\<forall>a. userRole v = Some a \<and> a \<in> set roles \<longrightarrow>
            (\<exists>ra rb. rank a = Some ra \<and> rank b = Some rb \<and>
               (requireRole e s b = Inr True \<longleftrightarrow> rb \<le> ra) \<and>
               (ra < rb \<longrightarrow> requireRole e s b = Inl (NextRedirect ''/unauthorized''))))
       \<and> ((userRole v = None \<or> (\<exists>a. userRole v = Some a \<and> a \<notin> set roles)) \<longrightarrow>
            requireRole e s b = Inl (NextRedirect ''/unauthorized''))"
proof (intro conjI allI impI)
  fix a assume a: "userRole v = Some a \<and> a \<in> set roles"
  then obtain ra where ra: "rank a = Some ra" using rank_roles by blast
  from assms(2) obtain rb where rb: "rank b = Some rb" using rank_roles by blast
  have "requireRole e s b = (if ra < rb then Inl (NextRedirect ''/unauthorized'') else Inr True)"
    using assms(1) a ra rb by (simp add: requireRole_def requireRoleIn_known)
  then show "\<exists>ra rb. rank a = Some ra \<and> rank b = Some rb \<and>
               (requireRole e s b = Inr True \<longleftrightarrow> rb \<le> ra) \<and>
               (ra < rb \<longrightarrow> requireRole e s b = Inl (NextRedirect ''/unauthorized''))"
    using ra rb by auto
next
  assume "userRole v = None \<or> (\<exists>a. userRole v = Some a \<and> a \<notin> set roles)"
  then show "requireRole e s b = Inl (NextRedirect ''/unauthorized'')"
    using assms(1) by (simp add: requireRole_def requireRoleIn_unknown)
qed

theorem requireRole_rank_witness:
  "requireRole Map.empty (session_of ''u1'' ''ADMIN'') ''PREMIUM'' = Inr True
   \<and> requireRole Map.empty (session_of ''u1'' ''BASIC'') ''ADMIN'' =
         Inl (NextRedirect ''/unauthorized'')
   \<and> requireRole Map.empty (session_of ''u1'' ''ROOT'') ''BASIC'' =
         Inl (NextRedirect ''/unauthorized'')"
  using requireRole_rank [OF verifySession_session_of [of "''ADMIN''"], of "''PREMIUM''"]
        requireRole_rank [OF verifySession_session_of [of "''BASIC''"], of "''ADMIN''"]
        requireRole_rank [OF verifySession_session_of [of "''ROOT''"], of "''BASIC''"]
  by (simp add: roles_def rank_def roleHierarchy_def)

text \<open>
  The template copy of the gate applies the same rule to its own three-label table, in
  which the label \<open>BASIC\<close> is not recognised.
\<close>

lemma requireRole_template_three_tier:
  "requireRole_template Map.empty (session_of ''u1'' ''ADMIN'') ''USER'' = Inr True
   \<and> requireRole_template Map.empty (session_of ''u1'' ''USER'') ''ADMIN'' =
         Inl (NextRedirect ''/unauthorized'')
   \<and> requireRole_template Map.empty (session_of ''u1'' ''BASIC'') ''USER'' =
         Inl (NextRedirect ''/unauthorized'')"
  by (simp add: requireRole_template_def verifySession_session_of requireRoleIn_def
        roleHierarchy_template_def)

section \<open>The development bypass of the session resolver\<close>

lemma all_less_6: "(\<forall>i<6. P (i::nat)) = (P 0 \<and> P 1 \<and> P 2 \<and> P 3 \<and> P 4 \<and> P 5)"
proof -
  have "{..<6::nat} = {0,1,2,3,4,5}" by auto
  then have "(\<forall>i\<in>{..<6}. P i) = (P 0 \<and> P 1 \<and> P 2 \<and> P 3 \<and> P 4 \<and> P 5)" by simp
  moreover have "(\<forall>i\<in>{..<6}. P i) = (\<forall>i<6. P i)" by auto
  ultimately show ?thesis by simp
qed

lemma truthy_iff: "\<not> truthy v \<longleftrightarrow> v = None \<or> v = Some []"
  by (cases v) (simp_all add: truthy_def)

lemma devEnv_guards: "bypassGuards devEnv = [True, True, True, True, True, True]"
  by (simp add: devEnv_def bypassGuards_def truthy_def startsWith_def)

text \<open>Each operand can fail alone: in the \<open>i\<close>-th environment only operand \<open>i\<close> is false.\<close>

lemma flippedEnvs_guards:
  "map bypassGuards flippedEnvs =
       [ [False, True, True, True, True, True],
         [True, False, True, True, True, True],
         [True, True, False, True, True, True],
         [True, True, True, False, True, True],
         [True, True, True, True, False, True],
         [True, True, True, True, True, False] ]"
  by (simp add: flippedEnvs_def devEnv_def bypassGuards_def truthy_def startsWith_def)

text \<open>
  Claim C2, as stated, fails: with \<open>VERCEL_ENV\<close> present but empty the bypass is active,
  and the guard has six operands, not five.
\<close>

theorem bypass_marker_counterexample:
  "isDevelopmentBypass emptyMarkerEnv \<and> emptyMarkerEnv ''VERCEL_ENV'' \<noteq> None
   \<and> length (bypassGuards emptyMarkerEnv) \<noteq> 5"
  by (simp add: isDevelopmentBypass_def emptyMarkerEnv_def devEnv_def truthy_def
        bypassGuards_def startsWith_def)

text \<open>
  Claim C2, amended. The guard is a conjunction of six operands, and the bypass is active
  exactly when all six hold, so a single false operand deactivates it: the runtime mode is
  \<open>development\<close>, the opt-in flag is \<open>true\<close>, the storage URL is set and contains
  \<open>localhost\<close>, and each of the three hosting markers is unset or empty. The bypass is
  active exactly when the resolver succeeds without any session, and it then returns the
  identity built from the configuration whatever the session is.
\<close>

theorem bypass_six_guards:
  "length (bypassGuards e) = 6
   \<and> (isDevelopmentBypass e \<longleftrightarrow> (\<forall>i<6. bypassGuards e ! i))
   \<and> (isDevelopmentBypass e \<longleftrightarrow>
        e ''NODE_ENV'' = Some ''development'' \<and>
        e ''DEV_DAL_BYPASS'' = Some ''true'' \<and>
        (\<exists>u. e ''DATABASE_URL'' = Some u \<and> includes_str u ''localhost'') \<and>
        (e ''VERCEL_ENV'' = None \<or> e ''VERCEL_ENV'' = Some []) \<and>
        (e ''RAILWAY_ENVIRONMENT'' = None \<or> e ''RAILWAY_ENVIRONMENT'' = Some []) \<and>
        (e ''HEROKU_APP_NAME'' = None \<or> e ''HEROKU_APP_NAME'' = Some []))
   \<and> (isDevelopmentBypass e \<longleftrightarrow> (\<exists>v. verifySession e None = Inr v))
   \<and> (isDevelopmentBypass e \<longrightarrow> (\<forall>s. verifySession e s =
          Inr \<lparr> isAuth = True,
                userId = orElse (e ''DEV_USER_ID'') ''dev-dal-user-id-default'',
                userEmail = Some (orElse (e ''DEV_USER_EMAIL'') ''dev-dal-default@example.com''),
                userRole = Some (orElse (e ''DEV_USER_ROLE'') ''ADMIN'') \<rparr>))"
proof (intro conjI)
  show "length (bypassGuards e) = 6" by (simp add: bypassGuards_def)
  show "isDevelopmentBypass e \<longleftrightarrow> (\<forall>i<6. bypassGuards e ! i)"
    unfolding all_less_6 by (simp add: isDevelopmentBypass_def bypassGuards_def)
  show "isDevelopmentBypass e \<longleftrightarrow>
        e ''NODE_ENV'' = Some ''development'' \<and>
        e ''DEV_DAL_BYPASS'' = Some ''true'' \<and>
        (\<exists>u. e ''DATABASE_URL'' = Some u \<and> includes_str u ''localhost'') \<and>
        (e ''VERCEL_ENV'' = None \<or> e ''VERCEL_ENV'' = Some []) \<and>
        (e ''RAILWAY_ENVIRONMENT'' = None \<or> e ''RAILWAY_ENVIRONMENT'' = Some []) \<and>
        (e ''HEROKU_APP_NAME'' = None \<or> e ''HEROKU_APP_NAME'' = Some [])"
    unfolding isDevelopmentBypass_def truthy_iff by (auto split: option.splits)
  show "isDevelopmentBypass e \<longleftrightarrow> (\<exists>v. verifySession e None = Inr v)"
    by (simp add: verifySession_def)
  show "isDevelopmentBypass e \<longrightarrow> (\<forall>s. verifySession e s =
          Inr \<lparr> isAuth = True,
                userId = orElse (e ''DEV_USER_ID'') ''dev-dal-user-id-default'',
                userEmail = Some (orElse (e ''DEV_USER_EMAIL'') ''dev-dal-default@example.com''),
                userRole = Some (orElse (e ''DEV_USER_ROLE'') ''ADMIN'') \<rparr>)"
    by (simp add: verifySession_def)
qed

theorem bypass_six_guards_witness:
  "isDevelopmentBypass devEnv
   \<and> \<not> isDevelopmentBypass (flippedEnvs ! 3)
   \<and> verifySession devEnv None =
        Inr \<lparr> isAuth = True, userId = ''dev-dal-user-id-default'',
              userEmail = Some ''dev-dal-default@example.com'', userRole = Some ''ADMIN'' \<rparr>"
proof -
  have a: "isDevelopmentBypass devEnv"
    using bypass_six_guards [of devEnv] devEnv_guards by (simp add: all_less_6)
  have g: "bypassGuards (flippedEnvs ! 3) = [True, True, True, False, True, True]"
    using flippedEnvs_guards by (simp add: flippedEnvs_def)
  have b: "\<not> isDevelopmentBypass (flippedEnvs ! 3)"
    using bypass_six_guards [of "flippedEnvs ! 3"] unfolding g by (simp add: all_less_6)
  have c: "verifySession devEnv None =
        Inr \<lparr> isAuth = True, userId = ''dev-dal-user-id-default'',
              userEmail = Some ''dev-dal-default@example.com'', userRole = Some ''ADMIN'' \<rparr>"
    using bypass_six_guards [of devEnv] a by (simp add: devEnv_def orElse_def)
  from a b c show ?thesis by simp
qed

section \<open>The data-fetch template\<close>

text \<open>
  Claim C5. \<open>getSecureData f\<close> runs \<open>f\<close> only after \<open>verifySession\<close> has succeeded. When the
  resolver redirects, \<open>getSecureData\<close> ends with that redirect and the world is as it was,
  whatever \<open>f\<close> is: a fetcher that records its calls has recorded none. When the resolver
  succeeds, the world is the one \<open>f\<close> leaves when called with the resolved subject id: the
  recording fetcher has recorded exactly one call, with that id.
\<close>

theorem getSecureData_only_after_verifySession:
  "(\<forall>t. verifySession e s = Inl t \<longrightarrow>
        getSecureData e s f w = (Inl t, w, []) \<and>
        fst (snd (getSecureData e s (recordingFetcher r) calls)) = calls)
   \<and> (\<forall>v. verifySession e s = Inr v \<longrightarrow>
        fst (snd (getSecureData e s f w)) = snd (f (userId v) w) \<and>
        fst (snd (getSecureData e s (recordingFetcher r) calls)) = calls @ [userId v])"
  by (auto simp: getSecureData_def recordingFetcher_def split: sum.splits prod.splits)

theorem getSecureData_only_after_verifySession_witness:
  "fst (snd (getSecureData Map.empty None (recordingFetcher (Inr (0::nat))) [])) = []
   \<and> getSecureData Map.empty None (recordingFetcher (Inr (0::nat))) [] =
        (Inl (NextRedirect ''/es/signin''), [], [])
   \<and> fst (snd (getSecureData Map.empty (session_of ''u1'' ''BASIC'')
                  (recordingFetcher (Inr (0::nat))) [])) = [''u1'']"
  using getSecureData_only_after_verifySession
          [of Map.empty None "recordingFetcher (Inr (0::nat))" "[]" "Inr (0::nat)" "[]"]
        getSecureData_only_after_verifySession
          [of Map.empty "session_of ''u1'' ''BASIC''" "recordingFetcher (Inr (0::nat))" "[]"
              "Inr (0::nat)" "[]"]
  by (simp add: verifySession_def isDevelopmentBypass_def session_of_def recordingFetcher_def)

text \<open>
  Claim C6. If the session resolves and the fetcher throws \<open>err\<close>, whatever \<open>err\<close> is,
  \<open>getSecureData\<close> throws the error \<open>Data access denied\<close> in its place; \<open>err\<close> reaches only
  the server's log.
\<close>

theorem getSecureData_generic_error:
  assumes "verifySession e s = Inr v" and "fst (f (userId v) w) = Inl err"
  shows "getSecureData e s f w =
           (Inl (JsError ''Data access denied''), snd (f (userId v) w), [err])"
  using assms by (auto simp: getSecureData_def split: sum.splits prod.splits)

theorem getSecureData_generic_error_witness:
  "getSecureData Map.empty (session_of ''u1'' ''BASIC'')
       (recordingFetcher (Inl (JsError ''connect ECONNREFUSED 10.0.0.5:5432'') :: thrown + nat)) []
     = (Inl (JsError ''Data access denied''), [''u1''],
        [JsError ''connect ECONNREFUSED 10.0.0.5:5432''])"
  using getSecureData_generic_error
          [OF verifySession_session_of [of "''BASIC''"],
           of "recordingFetcher (Inl (JsError ''connect ECONNREFUSED 10.0.0.5:5432'') :: thrown + nat)"
              "[]" "JsError ''connect ECONNREFUSED 10.0.0.5:5432''"]
  by (simp add: recordingFetcher_def)

section \<open>The rate limiter\<close>

lemma storeKey_inj: "storeKey i = storeKey j \<longleftrightarrow> i = j"
  by (simp add: storeKey_def)

lemma checkRateLimit_live:
  assumes "store (storeKey i) = Some e" and "\<not> resetTime e < now"
  shows "checkRateLimit now i store =
           (\<lparr> allowed = (count e + 1 \<le> 5), remaining = max 0 (4 - count e),
              result_resetTime = resetTime e \<rparr>,
            store(storeKey i \<mapsto> e \<lparr> count := count e + 1 \<rparr>))"
  using assms by (simp add: checkRateLimit_def Let_def MAX_ATTEMPTS_def)

lemma checkRateLimit_fresh:
  assumes "store (storeKey i) = None \<or> (\<exists>e. store (storeKey i) = Some e \<and> resetTime e < now)"
  shows "checkRateLimit now i store =
           (\<lparr> allowed = True, remaining = 4, result_resetTime = now + RATE_LIMIT_WINDOW \<rparr>,
            store(storeKey i \<mapsto> \<lparr> count = 1, resetTime = now + RATE_LIMIT_WINDOW \<rparr>))"
  using assms by (auto simp: checkRateLimit_def Let_def MAX_ATTEMPTS_def)

lemma checkRateLimit_frame:
  "j \<noteq> i \<Longrightarrow> snd (checkRateLimit now j store) (storeKey i) = store (storeKey i)"
  by (auto simp: checkRateLimit_def Let_def storeKey_inj split: option.splits)

lemma checkRateLimit_local:
  assumes "s (storeKey i) = s' (storeKey i)"
  shows "fst (checkRateLimit now i s) = fst (checkRateLimit now i s')
         \<and> snd (checkRateLimit now i s) (storeKey i) = snd (checkRateLimit now i s') (storeKey i)"
  using assms by (auto simp: checkRateLimit_def Let_def split: option.splits)

lemma checkRateLimits_Cons:
  "fst (checkRateLimits (t # ts) i s) =
     fst (checkRateLimit t i s) # fst (checkRateLimits ts i (snd (checkRateLimit t i s)))"
  by (simp split: prod.splits)

lemma runCalls_Cons:
  "fst (runCalls ((t, j) # cs) s) =
     (j, fst (checkRateLimit t j s)) # fst (runCalls cs (snd (checkRateLimit t j s)))"
  by (simp split: prod.splits)

lemma runCalls_project:
  "s (storeKey i) = s' (storeKey i) \<Longrightarrow>
     resultsFor i (fst (runCalls cs s)) = fst (checkRateLimits (timesFor i cs) i s')"
proof (induction cs arbitrary: s s')
  case Nil
  then show ?case by (simp add: resultsFor_def timesFor_def)
next
  case (Cons c cs)
  obtain now j where c: "c = (now, j)" by (cases c)
  show ?case
  proof (cases "j = i")
    case True
    have eq: "snd (checkRateLimit now i s) (storeKey i) = snd (checkRateLimit now i s') (storeKey i)"
      and r: "fst (checkRateLimit now i s) = fst (checkRateLimit now i s')"
      using checkRateLimit_local [where s = s and s' = s' and i = i and now = now] Cons.prems
      by simp_all
    have "resultsFor i (fst (runCalls cs (snd (checkRateLimit now i s)))) =
            fst (checkRateLimits (timesFor i cs) i (snd (checkRateLimit now i s')))"
      using eq by (rule Cons.IH)
    then show ?thesis
      unfolding c True runCalls_Cons
      by (simp add: resultsFor_def timesFor_def checkRateLimits_Cons r
            del: checkRateLimits.simps runCalls.simps)
  next
    case False
    have "snd (checkRateLimit now j s) (storeKey i) = s' (storeKey i)"
      using checkRateLimit_frame [OF False] Cons.prems by simp
    then have "resultsFor i (fst (runCalls cs (snd (checkRateLimit now j s)))) =
            fst (checkRateLimits (timesFor i cs) i s')"
      by (rule Cons.IH)
    then show ?thesis
      unfolding c runCalls_Cons using False
      by (simp add: resultsFor_def timesFor_def del: checkRateLimits.simps runCalls.simps)
  qed
qed

lemma checkRateLimits_length: "length (fst (checkRateLimits ts i s)) = length ts"
  by (induction ts arbitrary: s) (simp_all add: checkRateLimits_Cons del: checkRateLimits.simps(2))

lemma checkRateLimits_live:
  assumes "s (storeKey i) = Some e" and "\<forall>t\<in>set ts. t \<le> resetTime e" and "k < length ts"
  shows "fst (checkRateLimits ts i s) ! k =
           \<lparr> allowed = (count e + int k + 1 \<le> 5), remaining = max 0 (4 - count e - int k),
             result_resetTime = resetTime e \<rparr>"
  using assms
proof (induction ts arbitrary: s e k)
  case Nil
  then show ?case by simp
next
  case (Cons t ts)
  have live: "\<not> resetTime e < t" using Cons.prems(2) by auto
  have step: "checkRateLimit t i s =
           (\<lparr> allowed = (count e + 1 \<le> 5), remaining = max 0 (4 - count e),
              result_resetTime = resetTime e \<rparr>,
            s(storeKey i \<mapsto> e \<lparr> count := count e + 1 \<rparr>))"
    using checkRateLimit_live [where store = s and i = i and e = e and now = t]
      Cons.prems(1) live by simp
  show ?case
  proof (cases k)
    case 0
    then show ?thesis unfolding checkRateLimits_Cons step by simp
  next
    case (Suc k')
    let ?e' = "e \<lparr> count := count e + 1 \<rparr>"
    let ?s' = "s(storeKey i \<mapsto> ?e')"
    have a: "?s' (storeKey i) = Some ?e'" by simp
    have b: "\<forall>t\<in>set ts. t \<le> resetTime ?e'" using Cons.prems(2) by simp
    have c: "k' < length ts" using Cons.prems(3) Suc by simp
    have "fst (checkRateLimits ts i ?s') ! k' =
           \<lparr> allowed = (count ?e' + int k' + 1 \<le> 5), remaining = max 0 (4 - count ?e' - int k'),
             result_resetTime = resetTime ?e' \<rparr>"
      using a b c by (rule Cons.IH)
    then show ?thesis
      unfolding checkRateLimits_Cons step Suc by (simp add: algebra_simps)
  qed
qed


lemma checkRateLimit_entry:
  "\<exists>e1. snd (checkRateLimit now i s) (storeKey i) = Some e1
        \<and> fst (checkRateLimit now i s) =
            \<lparr> allowed = (count e1 \<le> 5), remaining = max 0 (5 - count e1),
              result_resetTime = resetTime e1 \<rparr>
        \<and> count e1 =
            (case s (storeKey i) of None \<Rightarrow> 0
             | Some e \<Rightarrow> if resetTime e < now then 0 else count e) + 1
        \<and> resetTime e1 =
            (case s (storeKey i) of None \<Rightarrow> now + RATE_LIMIT_WINDOW
             | Some e \<Rightarrow> if resetTime e < now then now + RATE_LIMIT_WINDOW else resetTime e)"
  by (auto simp: checkRateLimit_def Let_def MAX_ATTEMPTS_def split: option.splits)

lemma window_results:
  assumes e1: "snd (checkRateLimit t1 i s) (storeKey i) = Some e1"
    and r1: "fst (checkRateLimit t1 i s) =
            \<lparr> allowed = (count e1 \<le> 5), remaining = max 0 (5 - count e1),
              result_resetTime = resetTime e1 \<rparr>"
    and window: "\<forall>t\<in>set (timesFor i cs). t \<le> resetTime e1"
    and k: "k < Suc (length (timesFor i cs))"
  shows "resultsFor i (fst (runCalls ((t1, i) # cs) s)) ! k =
           \<lparr> allowed = (count e1 + int k \<le> 5), remaining = max 0 (5 - count e1 - int k),
             result_resetTime = resetTime e1 \<rparr>"
proof -
  let ?s1 = "snd (checkRateLimit t1 i s)"
  have rs: "resultsFor i (fst (runCalls ((t1, i) # cs) s)) =
          fst (checkRateLimit t1 i s) # fst (checkRateLimits (timesFor i cs) i ?s1)"
    using runCalls_project [where s = s and s' = s and i = i and cs = "(t1, i) # cs"]
    by (simp add: timesFor_def checkRateLimits_Cons del: checkRateLimits.simps runCalls.simps)
  show ?thesis
  proof (cases k)
    case 0
    then show ?thesis unfolding rs r1 by simp
  next
    case (Suc k')
    then have "k' < length (timesFor i cs)" using k by simp
    with e1 window have "fst (checkRateLimits (timesFor i cs) i ?s1) ! k' =
           \<lparr> allowed = (count e1 + int k' + 1 \<le> 5), remaining = max 0 (4 - count e1 - int k'),
             result_resetTime = resetTime e1 \<rparr>"
      by (rule checkRateLimits_live)
    then show ?thesis unfolding rs Suc by (simp add: algebra_simps)
  qed
qed

lemma resultsFor_length:
  "length (resultsFor i (fst (runCalls cs s))) = length (timesFor i cs)"
  using runCalls_project [where s = s and s' = s and i = i and cs = cs]
  by (simp add: checkRateLimits_length)

lemma laterCalls_times:
  "timesFor ''user@example.com'' laterCalls = [61000, 121000, 181000, 241000, 301000, 361000]"
  by (simp add: laterCalls_def timesFor_def)

lemma first_call_empty:
  "fst (checkRateLimit 1000 ''user@example.com'' Map.empty) =
     \<lparr> allowed = True, remaining = 4, result_resetTime = 901000 \<rparr>"
  using checkRateLimit_fresh [of Map.empty "''user@example.com''" 1000]
  by (simp add: RATE_LIMIT_WINDOW_def)

text \<open>
  Claim C3. Take any run of calls, for any identifiers, that starts with a call for \<open>i\<close> at
  time \<open>t0\<close> when \<open>i\<close> has no entry or an entry whose reset timestamp is before \<open>t0\<close>. That
  call opens a window with the counter at 1 and the reset timestamp \<open>t0\<close> plus 15 minutes.
  As long as the later calls for \<open>i\<close> are made no later than that timestamp, the \<open>k\<close>-th
  call for \<open>i\<close> (counted from 0) is allowed exactly when \<open>k < 5\<close> and has
  \<open>remaining = max 0 (4 - k)\<close>: the first five are allowed, the sixth is rejected with
  \<open>remaining = 0\<close>.
\<close>

theorem five_attempts_per_window:
  assumes fresh: "store (storeKey i) = None \<or>
                  (\<exists>e. store (storeKey i) = Some e \<and> resetTime e < t0)"
    and window: "\<forall>t\<in>set (timesFor i cs). t \<le> t0 + RATE_LIMIT_WINDOW"
    and k: "k < Suc (length (timesFor i cs))"
  shows "resultsFor i (fst (runCalls ((t0, i) # cs) store)) ! k =
           \<lparr> allowed = (k < 5), remaining = max 0 (4 - int k),
             result_resetTime = t0 + RATE_LIMIT_WINDOW \<rparr>
         \<and> length (resultsFor i (fst (runCalls ((t0, i) # cs) store))) =
             Suc (length (timesFor i cs))
         \<and> snd (checkRateLimit t0 i store) (storeKey i) =
             Some \<lparr> count = 1, resetTime = t0 + RATE_LIMIT_WINDOW \<rparr>"
proof -
  let ?e1 = "\<lparr> count = 1, resetTime = t0 + RATE_LIMIT_WINDOW \<rparr>"
  have step: "checkRateLimit t0 i store =
           (\<lparr> allowed = True, remaining = 4, result_resetTime = t0 + RATE_LIMIT_WINDOW \<rparr>,
            store(storeKey i \<mapsto> ?e1))"
    using fresh by (rule checkRateLimit_fresh)
  have e1: "snd (checkRateLimit t0 i store) (storeKey i) = Some ?e1"
    unfolding step by simp
  have r1: "fst (checkRateLimit t0 i store) =
            \<lparr> allowed = (count ?e1 \<le> 5), remaining = max 0 (5 - count ?e1),
              result_resetTime = resetTime ?e1 \<rparr>"
    unfolding step by simp
  have w: "\<forall>t\<in>set (timesFor i cs). t \<le> resetTime ?e1" using window by simp
  have "resultsFor i (fst (runCalls ((t0, i) # cs) store)) ! k =
           \<lparr> allowed = (count ?e1 + int k \<le> 5), remaining = max 0 (5 - count ?e1 - int k),
             result_resetTime = resetTime ?e1 \<rparr>"
    using e1 r1 w k by (rule window_results)
  moreover have "(1 + int k \<le> 5) = (k < 5)" by auto
  moreover have "5 - 1 - int k = 4 - int k" by simp
  ultimately have "resultsFor i (fst (runCalls ((t0, i) # cs) store)) ! k =
           \<lparr> allowed = (k < 5), remaining = max 0 (4 - int k),
             result_resetTime = t0 + RATE_LIMIT_WINDOW \<rparr>" by simp
  moreover have "length (resultsFor i (fst (runCalls ((t0, i) # cs) store))) =
             Suc (length (timesFor i cs))"
    unfolding resultsFor_length by (simp add: timesFor_def)
  ultimately show ?thesis using e1 by simp
qed

theorem five_attempts_per_window_witness:
  "allowed (resultsFor ''user@example.com''
      (fst (runCalls ((1000, ''user@example.com'') # laterCalls) Map.empty)) ! 4)
   \<and> resultsFor ''user@example.com''
        (fst (runCalls ((1000, ''user@example.com'') # laterCalls) Map.empty)) ! 5
      = \<lparr> allowed = False, remaining = 0, result_resetTime = 901000 \<rparr>
   \<and> resultsFor ''user@example.com''
        (fst (runCalls ((1000, ''user@example.com'') # laterCalls) staleStore)) ! 0
      = \<lparr> allowed = True, remaining = 4, result_resetTime = 901000 \<rparr>"
  using five_attempts_per_window [of Map.empty "''user@example.com''" 1000 laterCalls 4]
        five_attempts_per_window [of Map.empty "''user@example.com''" 1000 laterCalls 5]
        five_attempts_per_window [of staleStore "''user@example.com''" 1000 laterCalls 0]
  by (simp add: laterCalls_times RATE_LIMIT_WINDOW_def staleStore_def)

text \<open>
  Claim C10. Every call leaves an entry for its identifier whose count is one more than the
  count it found (0 when there was no entry or an expired one), so the store is never left
  as it was, also by a rejected call. In a run of calls, for any identifiers, in which the
  later calls for \<open>i\<close> are made no later than the reset timestamp the first call returned,
  a rejected call for \<open>i\<close> is followed only by rejected calls for \<open>i\<close>, \<open>remaining\<close> never
  increases from one call for \<open>i\<close> to a later one, and every call returns the same reset
  timestamp.
\<close>

theorem every_call_counts:
  "(\<exists>e1. snd (checkRateLimit now i store) (storeKey i) = Some e1 \<and>
          count e1 = (case store (storeKey i) of None \<Rightarrow> 0
                      | Some e \<Rightarrow> if resetTime e < now then 0 else count e) + 1)
   \<and> snd (checkRateLimit now i store) \<noteq> store
   \<and> ((\<forall>t\<in>set (timesFor i cs). t \<le> result_resetTime (fst (checkRateLimit now i store))) \<longrightarrow>
        (\<forall>k l. k \<le> l \<and> l < Suc (length (timesFor i cs)) \<longrightarrow>
           (\<not> allowed (resultsFor i (fst (runCalls ((now, i) # cs) store)) ! k) \<longrightarrow>
            \<not> allowed (resultsFor i (fst (runCalls ((now, i) # cs) store)) ! l))
           \<and> remaining (resultsFor i (fst (runCalls ((now, i) # cs) store)) ! l)
               \<le> remaining (resultsFor i (fst (runCalls ((now, i) # cs) store)) ! k)
           \<and> result_resetTime (resultsFor i (fst (runCalls ((now, i) # cs) store)) ! l)
               = result_resetTime (fst (checkRateLimit now i store))))"
proof -
  obtain e1 where e1: "snd (checkRateLimit now i store) (storeKey i) = Some e1"
    and r1: "fst (checkRateLimit now i store) =
            \<lparr> allowed = (count e1 \<le> 5), remaining = max 0 (5 - count e1),
              result_resetTime = resetTime e1 \<rparr>"
    and c1: "count e1 = (case store (storeKey i) of None \<Rightarrow> 0
                      | Some e \<Rightarrow> if resetTime e < now then 0 else count e) + 1"
    and t1: "resetTime e1 =
            (case store (storeKey i) of None \<Rightarrow> now + RATE_LIMIT_WINDOW
             | Some e \<Rightarrow> if resetTime e < now then now + RATE_LIMIT_WINDOW else resetTime e)"
    using checkRateLimit_entry [of now i store] by blast
  have changed: "snd (checkRateLimit now i store) \<noteq> store"
  proof
    assume same: "snd (checkRateLimit now i store) = store"
    have st: "store (storeKey i) = Some e1" using e1 unfolding same .
    have c: "count e1 = (if resetTime e1 < now then 0 else count e1) + 1"
      using c1 unfolding st by (simp only: option.case)
    have t: "resetTime e1 = (if resetTime e1 < now then now + RATE_LIMIT_WINDOW else resetTime e1)"
      using t1 unfolding st by (simp only: option.case)
    show False
    proof (cases "resetTime e1 < now")
      case True
      with t have "resetTime e1 = now + RATE_LIMIT_WINDOW" by (simp only: if_True)
      with True show False by (simp add: RATE_LIMIT_WINDOW_def)
    next
      case False
      with c have "count e1 = count e1 + 1" by (simp only: if_False)
      then show False by arith
    qed
  qed
  have mono: "(\<not> allowed (resultsFor i (fst (runCalls ((now, i) # cs) store)) ! k) \<longrightarrow>
            \<not> allowed (resultsFor i (fst (runCalls ((now, i) # cs) store)) ! l))
           \<and> remaining (resultsFor i (fst (runCalls ((now, i) # cs) store)) ! l)
               \<le> remaining (resultsFor i (fst (runCalls ((now, i) # cs) store)) ! k)
           \<and> result_resetTime (resultsFor i (fst (runCalls ((now, i) # cs) store)) ! l)
               = result_resetTime (fst (checkRateLimit now i store))"
    if w: "\<forall>t\<in>set (timesFor i cs). t \<le> result_resetTime (fst (checkRateLimit now i store))"
      and kl: "k \<le> l \<and> l < Suc (length (timesFor i cs))" for k l
  proof -
    have w': "\<forall>t\<in>set (timesFor i cs). t \<le> resetTime e1" using w unfolding r1 by simp
    have l: "l < Suc (length (timesFor i cs))" and k: "k < Suc (length (timesFor i cs))"
      using kl by auto
    have rl: "resultsFor i (fst (runCalls ((now, i) # cs) store)) ! l =
           \<lparr> allowed = (count e1 + int l \<le> 5), remaining = max 0 (5 - count e1 - int l),
             result_resetTime = resetTime e1 \<rparr>"
      using e1 r1 w' l by (rule window_results)
    have rk: "resultsFor i (fst (runCalls ((now, i) # cs) store)) ! k =
           \<lparr> allowed = (count e1 + int k \<le> 5), remaining = max 0 (5 - count e1 - int k),
             result_resetTime = resetTime e1 \<rparr>"
      using e1 r1 w' k by (rule window_results)
    show ?thesis unfolding rl rk r1 using kl by auto
  qed
  have first: "\<exists>e1. snd (checkRateLimit now i store) (storeKey i) = Some e1 \<and>
          count e1 = (case store (storeKey i) of None \<Rightarrow> 0
                      | Some e \<Rightarrow> if resetTime e < now then 0 else count e) + 1"
    using e1 c1 by simp
  show ?thesis
    apply (rule conjI [OF first])
    apply (rule conjI [OF changed])
    apply (intro impI allI)
    apply (rule mono)
     apply assumption+
    done
qed

theorem every_call_counts_witness:
  "\<not> allowed (resultsFor ''user@example.com''
      (fst (runCalls ((1000, ''user@example.com'') # laterCalls) Map.empty)) ! 6)
   \<and> remaining (resultsFor ''user@example.com''
      (fst (runCalls ((1000, ''user@example.com'') # laterCalls) Map.empty)) ! 6)
     \<le> remaining (resultsFor ''user@example.com''
      (fst (runCalls ((1000, ''user@example.com'') # laterCalls) Map.empty)) ! 5)
   \<and> snd (checkRateLimit 1000 ''user@example.com'' Map.empty) \<noteq> Map.empty"
proof -
  let ?rs = "resultsFor ''user@example.com''
      (fst (runCalls ((1000, ''user@example.com'') # laterCalls) Map.empty))"
  have e1: "snd (checkRateLimit 1000 ''user@example.com'' Map.empty) (storeKey ''user@example.com'')
              = Some \<lparr> count = 1, resetTime = 901000 \<rparr>"
    using checkRateLimit_fresh [of Map.empty "''user@example.com''" 1000]
    by (simp add: RATE_LIMIT_WINDOW_def)
  have "?rs ! 5 = \<lparr> allowed = (count \<lparr> count = 1, resetTime = 901000 \<rparr> + int 5 \<le> 5),
                    remaining = max 0 (5 - count \<lparr> count = 1, resetTime = 901000 \<rparr> - int 5),
                    result_resetTime = resetTime \<lparr> count = 1, resetTime = 901000 \<rparr> \<rparr>"
    using e1 by (rule window_results) (simp_all add: first_call_empty laterCalls_times)
  then have five: "\<not> allowed (?rs ! 5)" by simp
  have w: "\<forall>t\<in>set (timesFor ''user@example.com'' laterCalls).
             t \<le> result_resetTime (fst (checkRateLimit 1000 ''user@example.com'' Map.empty))"
    by (simp add: first_call_empty laterCalls_times)
  have kl: "(5::nat) \<le> 6 \<and> 6 < Suc (length (timesFor ''user@example.com'' laterCalls))"
    by (simp add: laterCalls_times)
  note all = every_call_counts [of 1000 "''user@example.com''" Map.empty laterCalls]
  note window = all [THEN conjunct2, THEN conjunct2, THEN mp, OF w]
  note later = window [rule_format, OF kl]
  from later five have a: "\<not> allowed (?rs ! 6)" by (rule_tac conjunct1 [THEN mp])
  from later have b: "remaining (?rs ! 6) \<le> remaining (?rs ! 5)"
    by (rule conjunct2 [THEN conjunct1])
  from all have c: "snd (checkRateLimit 1000 ''user@example.com'' Map.empty) \<noteq> Map.empty"
    by (rule conjunct2 [THEN conjunct1])
  from a b c show ?thesis by (intro conjI)
qed

section \<open>The credential verifier\<close>

text \<open>With the right password, inside the limit, \<open>authorize\<close> returns the account's public fields.\<close>

lemma authorize_success:
  assumes "safeParse credentials = Some (email, password)"
    and "allowed (fst (checkRateLimit now email store))"
    and "findUnique email = Inr (Some u)" and "db_password u = Some h" and "h \<noteq> []"
    and "compare password h = Inr True"
  shows "fst (authorize development safeParse findUnique compare now credentials store) =
           Some \<lparr> au_id = db_id u, au_email = db_email u, au_name = db_name u, au_role = db_role u \<rparr>"
  using assms by (auto simp: authorize_def split: prod.splits)

text \<open>
  Claim C4. For credentials that pass the schema check, \<open>authorize\<close> returns \<open>null\<close> both
  when storage has no record for the email and when it has one whose stored hash the
  password does not match, and it leaves the same rate-limit store in both cases: the
  caller cannot tell the two causes apart.
\<close>

theorem authorize_uniform_failure:
  assumes "safeParse credentials = Some (email, password)"
    and "findUnknown email = Inr None"
    and "findKnown email = Inr (Some u)" and "db_password u = Some h" and "h \<noteq> []"
    and "compare password h = Inr False"
  shows "fst (authorize development safeParse findUnknown compare now credentials store) = None
       \<and> fst (authorize development safeParse findKnown compare now credentials store) = None
       \<and> fst (snd (authorize development safeParse findUnknown compare now credentials store))
           = fst (snd (authorize development safeParse findKnown compare now credentials store))"
  using assms by (simp add: authorize_def split: prod.splits)

theorem authorize_uniform_failure_witness:
  "fst (authorize False Some (\<lambda>email. Inr None) (\<lambda>password h. Inr False) 1000
          (''user@example.com'', ''guess'') Map.empty) = None
   \<and> fst (authorize False Some (\<lambda>email. Inr (Some storedUser)) (\<lambda>password h. Inr False) 1000
          (''user@example.com'', ''guess'') Map.empty) = None"
  using authorize_uniform_failure
          [of Some "(''user@example.com'', ''guess'')" "''user@example.com''" "''guess''"
              "\<lambda>email. Inr None" "\<lambda>email. Inr (Some storedUser)" storedUser
              "''$2a$10$abcdefghijklmnopqrstuv''" "\<lambda>password h. Inr False" False 1000 Map.empty]
  by (simp add: storedUser_def)

section \<open>The edge request filter\<close>

lemma lowercase_lower [simp]:
  "lowercase ''x-middleware-subrequest'' = ''x-middleware-subrequest''"
  "lowercase ''x-forwarded-middleware'' = ''x-forwarded-middleware''"
  "lowercase ''X-Frame-Options'' = ''x-frame-options''"
  "lowercase ''X-Content-Type-Options'' = ''x-content-type-options''"
  "lowercase ''Referrer-Policy'' = ''referrer-policy''"
  "lowercase ''X-XSS-Protection'' = ''x-xss-protection''"
  "lowercase ''Strict-Transport-Security'' = ''strict-transport-security''"
  by (simp_all add: lowercase_def lowerChar_def)

lemma hasLocale_es_dashboard: "pathnameHasLocale ''/es/dashboard''"
  by (simp add: pathnameHasLocale_def locales_def startsWith_def)

lemma withoutLocale_es_dashboard: "getPathnameWithoutLocale ''/es/dashboard'' = ''/dashboard''"
  by (simp add: getPathnameWithoutLocale_def segment1_def locales_def)

lemma not_public_dashboard:
  "\<not> list_ex (\<lambda>route. startsWith ''/dashboard'' route) publicRoutes"
  by (simp add: publicRoutes_def startsWith_def)

lemma not_hasLocale_dashboard: "\<not> pathnameHasLocale ''/dashboard''"
  by (simp add: pathnameHasLocale_def locales_def startsWith_def)

lemma not_hasLocale_settings: "\<not> pathnameHasLocale ''/settings''"
  by (simp add: pathnameHasLocale_def locales_def startsWith_def)

subsection \<open>The \<open>authorized\<close> callback and the wrapper\<close>

lemma includes_str_append: "includes_str p sub \<Longrightarrow> includes_str (a @ p) sub"
  by (induction a) simp_all

text \<open>
  The callback answers itself only to a signed-in request whose path has no
  \<open>/dashboard\<close>; every other request goes to the handler.
\<close>

lemma authorized_passes:
  "(\<exists>b. authorized r = Authorized b) \<longleftrightarrow>
     (\<not> isLoggedIn r \<or> includes_str (pathname r) ''/dashboard'')"
  by (auto simp: authorized_def Let_def)

lemma authorized_responds:
  "authorized r = AuthorizedResponse resp \<Longrightarrow>
     resp = redirectResponse AuthorizedRedirect
              \<lparr> url_pathname = ''/'' @ orElse (segment1 (pathname r)) ''es'' @ ''/dashboard'',
                searchParams = [] \<rparr>"
  by (auto simp: authorized_def Let_def split: if_splits)

lemma middleware_passes:
  "authorized r = Authorized b \<Longrightarrow> middleware r = handler r"
  by (simp add: middleware_def auth_wrapper_def)

lemma middleware_responds:
  "authorized r = AuthorizedResponse resp \<Longrightarrow> middleware r = resp"
  by (simp add: middleware_def auth_wrapper_def)

lemma middleware_template_passes:
  "authorizedCallback r = Authorized b \<Longrightarrow>
     middleware_template authorizedCallback r = handler_template r"
  by (simp add: middleware_template_def auth_wrapper_def)

lemma isLoggedIn_pathname [simp]: "isLoggedIn (r \<lparr> pathname := p \<rparr>) = isLoggedIn r"
  by (simp add: isLoggedIn_def)

lemma authorized_forged: "authorized forgedRequest = Authorized True"
  by (simp add: authorized_def forgedRequest_def Let_def isLoggedIn_def session_of_def
        startsWith_def)

lemma authorized_plain: "authorized plainRequest = Authorized False"
  by (simp add: authorized_def plainRequest_def Let_def isLoggedIn_def startsWith_def)

lemma authorized_signedInSettings:
  "authorized signedInSettings =
     AuthorizedResponse
       (redirectResponse AuthorizedRedirect
          \<lparr> url_pathname = ''/settings/dashboard'', searchParams = [] \<rparr>)"
  by (simp add: authorized_def signedInSettings_def Let_def isLoggedIn_def session_of_def
        startsWith_def segment1_def orElse_def)

subsection \<open>The handlers\<close>

lemma handler_forged:
  "handler forgedRequest =
     \<lparr> action = NextResponse_next None,
       headers = hdelete ''x-forwarded-middleware''
                   (hdelete ''x-middleware-subrequest'' (securityHeaders Map.empty)) \<rparr>"
  by (simp add: handler_def forgedRequest_def Let_def hasLocale_es_dashboard
        withoutLocale_es_dashboard not_public_dashboard session_of_def)

lemma i18n_target_has_locale:
  assumes "p = [] \<or> (\<exists>rest. p = CHR ''/'' # rest)"
  shows "pathnameHasLocale (''/es'' @ p)"
  using assms by (auto simp: pathnameHasLocale_def locales_def startsWith_def)

lemma handler_without_locale:
  "\<not> pathnameHasLocale (pathname r) \<Longrightarrow>
     handler r = redirectResponse I18nRedirect
                   \<lparr> url_pathname = ''/es'' @ pathname r, searchParams = [] \<rparr>"
  by (simp add: handler_def Let_def currentLocale_def getLocale_def defaultLocale_def)

lemma handler_template_without_locale:
  "\<not> pathnameHasLocale (pathname r) \<Longrightarrow>
     handler_template r = redirectResponse I18nRedirect
                            \<lparr> url_pathname = ''/es'' @ pathname r, searchParams = [] \<rparr>"
  by (simp add: handler_template_def Let_def currentLocale_def getLocale_def defaultLocale_def)

lemma handler_with_locale:
  "pathnameHasLocale (pathname r) \<Longrightarrow> action (handler r) \<noteq> NextResponse_redirect I18nRedirect u"
  by (simp add: handler_def Let_def redirectResponse_def)

lemma handler_template_with_locale:
  "pathnameHasLocale (pathname r) \<Longrightarrow>
     action (handler_template r) \<noteq> NextResponse_redirect I18nRedirect u"
  by (simp add: handler_template_def Let_def redirectResponse_def)

lemma securityHeaders_get:
  "hget (hdelete ''x-forwarded-middleware''
           (hdelete ''x-middleware-subrequest'' (securityHeaders h))) ''X-Frame-Options'' = Some ''DENY''"
  "hget (hdelete ''x-forwarded-middleware''
           (hdelete ''x-middleware-subrequest'' (securityHeaders h))) ''X-Content-Type-Options''
     = Some ''nosniff''"
  "hget (hdelete ''x-forwarded-middleware''
           (hdelete ''x-middleware-subrequest'' (securityHeaders h))) ''Referrer-Policy''
     = Some ''strict-origin-when-cross-origin''"
  "hget (hdelete ''x-forwarded-middleware''
           (hdelete ''x-middleware-subrequest'' (securityHeaders h))) ''X-XSS-Protection''
     = Some ''1; mode=block''"
  "hget (hdelete ''x-forwarded-middleware''
           (hdelete ''x-middleware-subrequest'' (securityHeaders h))) ''Strict-Transport-Security''
     = Some ''max-age=31536000; includeSubDomains; preload''"
  by (simp_all add: securityHeaders_def hget_def hset_def hdelete_def)

text \<open>What the handler answers, by its own three conditions.\<close>

lemma handler_pass_through:
  "(\<forall>ov. action (handler r) = NextResponse_next ov \<longrightarrow>
       hget (headers (handler r)) ''X-Frame-Options'' = Some ''DENY''
     \<and> hget (headers (handler r)) ''X-Content-Type-Options'' = Some ''nosniff''
     \<and> hget (headers (handler r)) ''Referrer-Policy'' = Some ''strict-origin-when-cross-origin''
     \<and> hget (headers (handler r)) ''X-XSS-Protection'' = Some ''1; mode=block''
     \<and> hget (headers (handler r)) ''Strict-Transport-Security''
         = Some ''max-age=31536000; includeSubDomains; preload'')
   \<and> (\<forall>step u. action (handler r) = NextResponse_redirect step u \<longrightarrow>
         headers (handler r) = Map.empty)
   \<and> ((\<exists>ov. action (handler r) = NextResponse_next ov) \<longleftrightarrow>
        pathnameHasLocale (pathname r) \<and>
        (list_ex (\<lambda>route. startsWith (getPathnameWithoutLocale (pathname r)) route) publicRoutes
           \<longleftrightarrow> auth r = None))"
  by (auto simp: handler_def Let_def redirectResponse_def securityHeaders_get)

text \<open>
  Neither the handler nor the wrapper passes a request override to \<open>next()\<close>: the request
  that goes on is the one that came in.
\<close>

lemma handler_never_rewrites_request:
  "forwardedRequest r (handler r) = None \<or> forwardedRequest r (handler r) = Some r"
  by (simp add: handler_def forwardedRequest_def redirectResponse_def Let_def)

lemma middleware_never_rewrites_request:
  "forwardedRequest r (middleware r) = None \<or> forwardedRequest r (middleware r) = Some r"
proof (cases "authorized r")
  case (Authorized b)
  then show ?thesis using handler_never_rewrites_request [of r] by (simp add: middleware_passes)
next
  case (AuthorizedResponse resp)
  then show ?thesis
    using authorized_responds [OF AuthorizedResponse]
    by (simp add: middleware_responds forwardedRequest_def redirectResponse_def)
qed

subsection \<open>Inbound headers\<close>

text \<open>
  Claim C7. The handler builds a copy of the request without the two header names, but the
  copy is not handed on: for the signed-in request for \<open>/es/dashboard\<close> carrying
  \<open>x-middleware-subrequest\<close>, which the wrapper gives to the handler, the copy has no such
  header, and the request that goes on to the route is the request as it came in, header
  included.
\<close>

theorem inbound_headers_not_removed:
  "hget (req_headers forgedRequest) ''x-middleware-subrequest''
     = Some ''middleware:middleware:middleware''
   \<and> hget (req_headers (cleanRequest forgedRequest)) ''x-middleware-subrequest'' = None
   \<and> forwardedRequest forgedRequest (middleware forgedRequest) = Some forgedRequest
   \<and> forwardedRequest forgedRequest (handler forgedRequest) = Some forgedRequest"
  by (simp add: middleware_passes [OF authorized_forged] handler_forged forwardedRequest_def)
     (simp add: forgedRequest_def cleanRequest_def hget_def hdelete_def)

subsection \<open>The locale redirect\<close>

text \<open>
  Claim C8, as stated, fails: the path \<open>/settings\<close> has no supported locale prefix, and
  the filter answers the signed-in request for it with the redirect of the \<open>authorized\<close>
  callback, to \<open>/settings/dashboard\<close>, not with a redirect to \<open>/es/settings\<close>.
\<close>

theorem signed_in_request_not_locale_redirected:
  "\<not> pathnameHasLocale (pathname signedInSettings)
   \<and> action (middleware signedInSettings) =
       NextResponse_redirect AuthorizedRedirect
         \<lparr> url_pathname = ''/settings/dashboard'', searchParams = [] \<rparr>
   \<and> action (middleware signedInSettings) \<noteq>
       NextResponse_redirect I18nRedirect \<lparr> url_pathname = ''/es/settings'', searchParams = [] \<rparr>"
  by (simp add: middleware_responds [OF authorized_signedInSettings] redirectResponse_def)
     (simp add: signedInSettings_def not_hasLocale_settings)

text \<open>
  Claim C8, amended. The wrapper gives a request to the handler exactly when the request is
  anonymous or its path contains \<open>/dashboard\<close>. For such a request whose URL path (empty or
  starting with a slash) has no supported locale prefix, the filter's response is one
  redirect, to the path prefixed with the default locale; that target has a supported
  prefix, is given to the handler again and is not answered with the locale redirect. No
  request whose path has a supported prefix is answered with the locale redirect. The
  same holds of the template's filter for the requests its \<open>authorized\<close> callback, whatever
  it is, gives to the handler.
\<close>

theorem locale_redirect_once:
  assumes "pathname r = [] \<or> (\<exists>rest. pathname r = CHR ''/'' # rest)"
  shows "((\<exists>b. authorized r = Authorized b) \<longleftrightarrow>
            (\<not> isLoggedIn r \<or> includes_str (pathname r) ''/dashboard''))
       \<and> ((\<exists>b. authorized r = Authorized b) \<and> \<not> pathnameHasLocale (pathname r) \<longrightarrow>
            action (middleware r) =
              NextResponse_redirect I18nRedirect
                \<lparr> url_pathname = ''/'' @ defaultLocale @ pathname r, searchParams = [] \<rparr>
          \<and> pathnameHasLocale (''/'' @ defaultLocale @ pathname r)
          \<and> (\<exists>b. authorized (r \<lparr> pathname := ''/'' @ defaultLocale @ pathname r \<rparr>) = Authorized b)
          \<and> (\<forall>u. action (middleware (r \<lparr> pathname := ''/'' @ defaultLocale @ pathname r \<rparr>))
                    \<noteq> NextResponse_redirect I18nRedirect u))
       \<and> (pathnameHasLocale (pathname r) \<longrightarrow>
            (\<forall>u. action (middleware r) \<noteq> NextResponse_redirect I18nRedirect u))
       \<and> ((\<exists>b. cb r = Authorized b) \<and> \<not> pathnameHasLocale (pathname r) \<longrightarrow>
            action (middleware_template cb r) =
              NextResponse_redirect I18nRedirect
                \<lparr> url_pathname = ''/'' @ defaultLocale @ pathname r, searchParams = [] \<rparr>)
       \<and> ((\<exists>b. cb r = Authorized b) \<and> pathnameHasLocale (pathname r) \<longrightarrow>
            (\<forall>u. action (middleware_template cb r) \<noteq> NextResponse_redirect I18nRedirect u))
       \<and> ((\<exists>b. cb (r \<lparr> pathname := ''/'' @ defaultLocale @ pathname r \<rparr>) = Authorized b) \<longrightarrow>
            (\<forall>u. action (middleware_template cb (r \<lparr> pathname := ''/'' @ defaultLocale @ pathname r \<rparr>))
                    \<noteq> NextResponse_redirect I18nRedirect u))"
proof -
  let ?t = "''/'' @ defaultLocale @ pathname r"
  let ?r' = "r \<lparr> pathname := ?t \<rparr>"
  have target: "pathnameHasLocale ?t"
    using i18n_target_has_locale [OF assms] by (simp add: defaultLocale_def)
  then have t': "pathnameHasLocale (pathname ?r')" by simp
  have with_locale: "action (middleware q) \<noteq> NextResponse_redirect I18nRedirect u"
    if "pathnameHasLocale (pathname q)" for q u
  proof (cases "authorized q")
    case (Authorized b)
    then show ?thesis using handler_with_locale [OF that] by (simp add: middleware_passes)
  next
    case (AuthorizedResponse resp)
    then show ?thesis
      using authorized_responds [OF AuthorizedResponse]
      by (simp add: middleware_responds redirectResponse_def)
  qed
  have c1: "(\<exists>b. authorized r = Authorized b) \<longleftrightarrow>
            (\<not> isLoggedIn r \<or> includes_str (pathname r) ''/dashboard'')"
    by (rule authorized_passes)
  have c2: "action (middleware r) =
              NextResponse_redirect I18nRedirect \<lparr> url_pathname = ?t, searchParams = [] \<rparr>
          \<and> pathnameHasLocale ?t
          \<and> (\<exists>b. authorized ?r' = Authorized b)
          \<and> (\<forall>u. action (middleware ?r') \<noteq> NextResponse_redirect I18nRedirect u)"
    if h: "(\<exists>b. authorized r = Authorized b) \<and> \<not> pathnameHasLocale (pathname r)"
  proof -
    from h obtain b where b: "authorized r = Authorized b" by blast
    from h have n: "\<not> pathnameHasLocale (pathname r)" by simp
    have a: "action (middleware r) =
              NextResponse_redirect I18nRedirect \<lparr> url_pathname = ?t, searchParams = [] \<rparr>"
      by (simp add: middleware_passes [OF b] handler_without_locale [OF n] redirectResponse_def
            defaultLocale_def)
    from b have "\<not> isLoggedIn r \<or> includes_str (pathname r) ''/dashboard''"
      using c1 by blast
    then have "\<not> isLoggedIn ?r' \<or> includes_str (pathname ?r') ''/dashboard''"
      using includes_str_append [of "pathname r" "''/dashboard''" "''/'' @ defaultLocale"]
      by auto
    then have p: "\<exists>b. authorized ?r' = Authorized b"
      using authorized_passes [of ?r'] by blast
    from a target p with_locale [OF t'] show ?thesis by blast
  qed
  have c3: "\<forall>u. action (middleware r) \<noteq> NextResponse_redirect I18nRedirect u"
    if "pathnameHasLocale (pathname r)"
    using with_locale [OF that] by blast
  have c4: "action (middleware_template cb r) =
              NextResponse_redirect I18nRedirect \<lparr> url_pathname = ?t, searchParams = [] \<rparr>"
    if h: "(\<exists>b. cb r = Authorized b) \<and> \<not> pathnameHasLocale (pathname r)"
  proof -
    from h obtain b where b: "cb r = Authorized b" by blast
    from h have n: "\<not> pathnameHasLocale (pathname r)" by simp
    show ?thesis
      by (simp add: middleware_template_passes [where authorizedCallback = cb and r = r, OF b]
            handler_template_without_locale [OF n] redirectResponse_def defaultLocale_def)
  qed
  have template_with_locale:
    "\<forall>u. action (middleware_template cb q) \<noteq> NextResponse_redirect I18nRedirect u"
    if h: "(\<exists>b. cb q = Authorized b) \<and> pathnameHasLocale (pathname q)" for q
  proof -
    from h obtain b where b: "cb q = Authorized b" by blast
    from h have l: "pathnameHasLocale (pathname q)" by simp
    show ?thesis
      using handler_template_with_locale [OF l]
      by (simp add: middleware_template_passes [where authorizedCallback = cb and r = q, OF b])
  qed
  have c6: "\<forall>u. action (middleware_template cb ?r') \<noteq> NextResponse_redirect I18nRedirect u"
    if "\<exists>b. cb ?r' = Authorized b"
    using template_with_locale [of ?r'] that t' by blast
  show ?thesis
    apply (rule conjI [OF c1])
    apply (rule conjI, rule impI, erule c2)
    apply (rule conjI, rule impI, erule c3)
    apply (rule conjI, rule impI, erule c4)
    apply (rule conjI, rule impI, erule template_with_locale)
    apply (rule impI, erule c6)
    done
qed

theorem locale_redirect_once_witness:
  "action (middleware plainRequest) =
     NextResponse_redirect I18nRedirect \<lparr> url_pathname = ''/es/dashboard'', searchParams = [] \<rparr>
   \<and> action (middleware_template (\<lambda>request. Authorized True) plainRequest) =
     NextResponse_redirect I18nRedirect \<lparr> url_pathname = ''/es/dashboard'', searchParams = [] \<rparr>
   \<and> action (middleware (plainRequest \<lparr> pathname := ''/es/dashboard'' \<rparr>))
       \<noteq> NextResponse_redirect I18nRedirect \<lparr> url_pathname = ''/es/es/dashboard'', searchParams = [] \<rparr>
   \<and> action (middleware forgedRequest)
       \<noteq> NextResponse_redirect I18nRedirect \<lparr> url_pathname = ''/es/es/dashboard'', searchParams = [] \<rparr>"
proof -
  have p: "pathname plainRequest = [] \<or> (\<exists>rest. pathname plainRequest = CHR ''/'' # rest)"
    by (simp add: plainRequest_def)
  have f: "pathname forgedRequest = [] \<or> (\<exists>rest. pathname forgedRequest = CHR ''/'' # rest)"
    by (simp add: forgedRequest_def)
  have n: "\<not> pathnameHasLocale (pathname plainRequest)"
    by (simp add: plainRequest_def not_hasLocale_dashboard)
  have h1: "(\<exists>b. authorized plainRequest = Authorized b)
            \<and> \<not> pathnameHasLocale (pathname plainRequest)"
    using n authorized_plain by blast
  have h2: "(\<exists>b. (\<lambda>request. Authorized True) plainRequest = Authorized b)
            \<and> \<not> pathnameHasLocale (pathname plainRequest)"
    using n by blast
  have h3: "pathnameHasLocale (pathname forgedRequest)"
    by (simp add: forgedRequest_def hasLocale_es_dashboard)
  note plain = locale_redirect_once [OF p, where cb = "\<lambda>request. Authorized True"]
  note forged = locale_redirect_once [OF f, where cb = "\<lambda>request. Authorized True"]
  note sifrex = plain [THEN conjunct2, THEN conjunct1, rule_format, OF h1]
  note template = plain [THEN conjunct2, THEN conjunct2, THEN conjunct2, THEN conjunct1,
                         rule_format, OF h2]
  note prefixed = forged [THEN conjunct2, THEN conjunct2, THEN conjunct1, rule_format, OF h3]
  from sifrex template prefixed show ?thesis
    by (simp add: plainRequest_def defaultLocale_def)
qed

subsection \<open>Security headers\<close>

text \<open>
  Claim C9, as stated, fails: the response to an anonymous request for \<open>/dashboard\<close> is the
  locale redirect, and it carries neither \<open>X-Frame-Options\<close> nor
  \<open>Strict-Transport-Security\<close>.
\<close>

theorem redirect_without_security_headers:
  "hget (headers (middleware plainRequest)) ''X-Frame-Options'' = None
   \<and> hget (headers (middleware plainRequest)) ''Strict-Transport-Security'' = None
   \<and> action (middleware plainRequest) =
       NextResponse_redirect I18nRedirect \<lparr> url_pathname = ''/es/dashboard'', searchParams = [] \<rparr>"
  using handler_without_locale [of plainRequest]
  by (simp add: middleware_passes [OF authorized_plain])
     (simp add: plainRequest_def not_hasLocale_dashboard redirectResponse_def hget_def)

text \<open>
  Claim C9, amended. Every pass-through response of the filter (\<open>NextResponse.next()\<close>)
  carries the five security headers with their fixed values; no header is written on a
  redirect response. This holds of the handler and of the exported filter. The handler's
  response is a pass-through exactly when the path has a supported locale prefix and the
  route is public for an anonymous request, not public for a signed-in one; the filter's
  response is a pass-through exactly when, in addition, the \<open>authorized\<close> callback gives the
  request to the handler.
\<close>

theorem security_headers_on_pass_through:
  "(\<forall>ov. action (handler r) = NextResponse_next ov \<longrightarrow>
       hget (headers (handler r)) ''X-Frame-Options'' = Some ''DENY''
     \<and> hget (headers (handler r)) ''X-Content-Type-Options'' = Some ''nosniff''
     \<and> hget (headers (handler r)) ''Referrer-Policy'' = Some ''strict-origin-when-cross-origin''
     \<and> hget (headers (handler r)) ''X-XSS-Protection'' = Some ''1; mode=block''
     \<and> hget (headers (handler r)) ''Strict-Transport-Security''
         = Some ''max-age=31536000; includeSubDomains; preload'')
   \<and> (\<forall>step u. action (handler r) = NextResponse_redirect step u \<longrightarrow>
         headers (handler r) = Map.empty)
   \<and> ((\<exists>ov. action (handler r) = NextResponse_next ov) \<longleftrightarrow>
        pathnameHasLocale (pathname r) \<and>
        (list_ex (\<lambda>route. startsWith (getPathnameWithoutLocale (pathname r)) route) publicRoutes
           \<longleftrightarrow> auth r = None))
   \<and> (\<forall>ov. action (middleware r) = NextResponse_next ov \<longrightarrow>
       hget (headers (middleware r)) ''X-Frame-Options'' = Some ''DENY''
     \<and> hget (headers (middleware r)) ''X-Content-Type-Options'' = Some ''nosniff''
     \<and> hget (headers (middleware r)) ''Referrer-Policy'' = Some ''strict-origin-when-cross-origin''
     \<and> hget (headers (middleware r)) ''X-XSS-Protection'' = Some ''1; mode=block''
     \<and> hget (headers (middleware r)) ''Strict-Transport-Security''
         = Some ''max-age=31536000; includeSubDomains; preload'')
   \<and> (\<forall>step u. action (middleware r) = NextResponse_redirect step u \<longrightarrow>
         headers (middleware r) = Map.empty)
   \<and> ((\<exists>ov. action (middleware r) = NextResponse_next ov) \<longleftrightarrow>
        (\<not> isLoggedIn r \<or> includes_str (pathname r) ''/dashboard'') \<and>
        pathnameHasLocale (pathname r) \<and>
        (list_ex (\<lambda>route. startsWith (getPathnameWithoutLocale (pathname r)) route) publicRoutes
           \<longleftrightarrow> auth r = None))"
proof (cases "authorized r")
  case (Authorized b)
  then have m: "middleware r = handler r" by (rule middleware_passes)
  from Authorized have p: "\<not> isLoggedIn r \<or> includes_str (pathname r) ''/dashboard''"
    using authorized_passes [of r] by blast
  show ?thesis unfolding m using handler_pass_through [of r] p by simp
next
  case (AuthorizedResponse resp)
  then have m: "middleware r =
      redirectResponse AuthorizedRedirect
        \<lparr> url_pathname = ''/'' @ orElse (segment1 (pathname r)) ''es'' @ ''/dashboard'',
          searchParams = [] \<rparr>"
    using authorized_responds [OF AuthorizedResponse] by (simp add: middleware_responds)
  from AuthorizedResponse have p: "\<not> (\<not> isLoggedIn r \<or> includes_str (pathname r) ''/dashboard'')"
    using authorized_passes [of r] by auto
  have e: "(\<forall>ov. action (middleware r) = NextResponse_next ov \<longrightarrow>
       hget (headers (middleware r)) ''X-Frame-Options'' = Some ''DENY''
     \<and> hget (headers (middleware r)) ''X-Content-Type-Options'' = Some ''nosniff''
     \<and> hget (headers (middleware r)) ''Referrer-Policy'' = Some ''strict-origin-when-cross-origin''
     \<and> hget (headers (middleware r)) ''X-XSS-Protection'' = Some ''1; mode=block''
     \<and> hget (headers (middleware r)) ''Strict-Transport-Security''
         = Some ''max-age=31536000; includeSubDomains; preload'')
   \<and> (\<forall>step u. action (middleware r) = NextResponse_redirect step u \<longrightarrow>
         headers (middleware r) = Map.empty)
   \<and> ((\<exists>ov. action (middleware r) = NextResponse_next ov) \<longleftrightarrow>
        (\<not> isLoggedIn r \<or> includes_str (pathname r) ''/dashboard'') \<and>
        pathnameHasLocale (pathname r) \<and>
        (list_ex (\<lambda>route. startsWith (getPathnameWithoutLocale (pathname r)) route) publicRoutes
           \<longleftrightarrow> auth r = None))"
    unfolding m using p by (simp add: redirectResponse_def)
  show ?thesis using handler_pass_through [of r] e by simp
qed

theorem security_headers_on_pass_through_witness:
  "action (middleware forgedRequest) = NextResponse_next None
   \<and> hget (headers (middleware forgedRequest)) ''X-Frame-Options'' = Some ''DENY''
   \<and> hget (headers (middleware forgedRequest)) ''Strict-Transport-Security''
       = Some ''max-age=31536000; includeSubDomains; preload''
   \<and> headers (middleware plainRequest) = Map.empty"
proof -
  have a: "action (middleware forgedRequest) = NextResponse_next None"
    by (simp add: middleware_passes [OF authorized_forged] handler_forged)
  have b: "action (middleware plainRequest) =
      NextResponse_redirect I18nRedirect \<lparr> url_pathname = ''/es/dashboard'', searchParams = [] \<rparr>"
    using handler_without_locale [of plainRequest]
    by (simp add: middleware_passes [OF authorized_plain])
       (simp add: plainRequest_def not_hasLocale_dashboard redirectResponse_def)
  note filter = security_headers_on_pass_through
                  [THEN conjunct2, THEN conjunct2, THEN conjunct2]
  note pass = filter [of forgedRequest, THEN conjunct1, rule_format, OF a]
  note redir = filter [of plainRequest, THEN conjunct2, THEN conjunct1, rule_format, OF b]
  from a pass redir show ?thesis by simp
qed

end
